theory Spec2Isabelle
  imports Complex_Main
begin

section \<open>Numbers, exceptions and strings\<close>

text \<open>
  Prices, cash and signals are real numbers (the data model of the backtester speaks of
  positive finite reals), and sums, products and comparisons are exact. The one operation
  whose rounding decides what the engine does, the floor division that sizes an entry, is
  carried out in IEEE binary64 as CPython does it. A NaN cell of a pandas Series is
  \<open>None\<close> in a \<open>real option list\<close>. A Series is the list of its values, its index being
  the positions \<open>0, 1, ...\<close> (the timestamps are distinct and ascending). Exceptions are
  values.
  The standard deviation is a real square root, so a concrete run is evaluated by
  simplification rather than by generated code. \<open>str.lower\<close> is modelled on the ASCII
  letters.
\<close>

datatype pyerror = ValueError string | KeyError nat | ZeroDivisionError | OverflowError

definition lower_char :: "char \<Rightarrow> char" where
  "lower_char c =
     (let n = (of_char c :: nat) in if 65 \<le> n \<and> n \<le> 90 then char_of (n + 32) else c)"

definition lower :: "string \<Rightarrow> string" where
  "lower s = map lower_char s"

section \<open>broker.py\<close>

record trade =
  side :: string
  qty :: int
  price :: real
  cash_after :: real
  position_after :: int

record broker =
  cash :: real
  position :: int
  trade_log :: "trade list"

definition Broker :: "real \<Rightarrow> broker" where
  "Broker c = \<lparr>cash = c, position = 0, trade_log = []\<rparr>"

text \<open>
  \<open>market_order\<close> mutates the broker in place and may raise; the model returns the
  exception raised (if any) together with the broker as it is left behind.
\<close>

definition market_order :: "broker \<Rightarrow> string \<Rightarrow> int \<Rightarrow> real \<Rightarrow> pyerror option \<times> broker" where
  "market_order b sd q px =
     (if q \<le> 0 then (Some (ValueError ''Quantity must be positive.''), b)
      else if px \<le> 0 then (Some (ValueError ''Price must be positive.''), b)
      else
        let b1 = (if lower sd = ''buy''
                  then b\<lparr>cash := cash b - of_int q * px, position := position b + q\<rparr>
                  else if lower sd = ''sell''
                  then b\<lparr>cash := cash b + of_int q * px, position := position b - q\<rparr>
                  else b)
        in (None, b1\<lparr>trade_log := trade_log b1 @
              [\<lparr>side = sd, qty = q, price = px,
                cash_after = cash b1, position_after = position b1\<rparr>]\<rparr>))"

definition total_value :: "broker \<Rightarrow> real \<Rightarrow> real" where
  "total_value b current_price = cash b + of_int (position b) * current_price"

section \<open>strategy.py\<close>

record strategy =
  lookback :: int
  k :: real
  hold :: bool
  lag_signal :: int
  long_only :: bool

text \<open>The constructor converts and stores its arguments; it checks nothing.\<close>

definition VolatilityBreakoutStrategy ::
  "int \<Rightarrow> real \<Rightarrow> bool \<Rightarrow> int \<Rightarrow> bool \<Rightarrow> pyerror + strategy" where
  "VolatilityBreakoutStrategy lb kk h lag lo =
     Inr \<lparr>lookback = lb, k = kk, hold = h, lag_signal = lag, long_only = lo\<rparr>"

subsection \<open>The pandas operations that \<open>signals\<close> uses\<close>

text \<open>\<open>Series.shift(n)\<close> for \<open>n \<ge> 0\<close>: the values move down by \<open>n\<close>, NaN comes in on top.\<close>

definition shift :: "nat \<Rightarrow> 'a option list \<Rightarrow> 'a option list" where
  "shift n xs = replicate (min n (length xs)) None @ take (length xs - n) xs"

definition fillna :: "'a \<Rightarrow> 'a option list \<Rightarrow> 'a list" where
  "fillna v xs = map (\<lambda>x. case x of None \<Rightarrow> v | Some y \<Rightarrow> y) xs"

text \<open>
  \<open>Series.pct_change()\<close>: NaN first, then \<open>p[t] / p[t-1] - 1\<close>. A zero divisor gives an
  infinity or NaN in floating point; the rolling window that consumes the returns treats
  both as missing, so both are \<open>None\<close> here.
\<close>

fun pct_from :: "real \<Rightarrow> real list \<Rightarrow> real option list" where
  "pct_from prev [] = []"
| "pct_from prev (p # ps) =
     (if prev = 0 then None else Some (p / prev - 1)) # pct_from p ps"

definition pct_change :: "real list \<Rightarrow> real option list" where
  "pct_change ps = (case ps of [] \<Rightarrow> [] | p # rest \<Rightarrow> None # pct_from p rest)"

text \<open>
  \<open>rolling(w, min_periods=w).std()\<close>: the sample standard deviation (one degree of
  freedom removed) of the last \<open>w\<close> values, defined only when the window is complete,
  holds no missing value and has more than one observation.
\<close>

definition sample_std :: "real list \<Rightarrow> real" where
  "sample_std xs =
     (let n = length xs; m = sum_list xs / of_nat n
      in sqrt (sum_list (map (\<lambda>x. (x - m)\<^sup>2) xs) / of_nat (n - 1)))"

definition window_std :: "nat \<Rightarrow> real option list \<Rightarrow> nat \<Rightarrow> real option" where
  "window_std w xs i =
     (if w \<le> 1 \<or> i + 1 < w then None
      else let win = take w (drop (i + 1 - w) xs)
           in if None \<in> set win then None else Some (sample_std (map the win)))"

definition rolling_std :: "nat \<Rightarrow> real option list \<Rightarrow> real option list" where
  "rolling_std w xs = map (window_std w xs) [0..<length xs]"

text \<open>Arithmetic with NaN gives NaN, a comparison with NaN is false.\<close>

definition nan2 :: "(real \<Rightarrow> real \<Rightarrow> real) \<Rightarrow> real option \<Rightarrow> real option \<Rightarrow> real option" where
  "nan2 f x y = (case (x, y) of (Some a, Some b) \<Rightarrow> Some (f a b) | _ \<Rightarrow> None)"

definition gt_nan :: "real \<Rightarrow> real option \<Rightarrow> bool" where
  "gt_nan p b = (case b of None \<Rightarrow> False | Some u \<Rightarrow> p > u)"

definition lt_nan :: "real \<Rightarrow> real option \<Rightarrow> bool" where
  "lt_nan p b = (case b of None \<Rightarrow> False | Some d \<Rightarrow> p < d)"

text \<open>\<open>replace(0, nan)\<close> and \<open>ffill()\<close>: the last value seen is carried over the gaps.\<close>

definition replace_zero :: "real list \<Rightarrow> real option list" where
  "replace_zero xs = map (\<lambda>x. if x = 0 then None else Some x) xs"

fun ffill_from :: "'a option \<Rightarrow> 'a option list \<Rightarrow> 'a option list" where
  "ffill_from carried [] = []"
| "ffill_from carried (None # xs) = carried # ffill_from carried xs"
| "ffill_from carried (Some x # xs) = Some x # ffill_from (Some x) xs"

definition ffill :: "'a option list \<Rightarrow> 'a option list" where
  "ffill xs = ffill_from None xs"

subsection \<open>\<open>VolatilityBreakoutStrategy.signals\<close>\<close>

definition prev_close :: "real list \<Rightarrow> real option list" where
  "prev_close prices = shift 1 (map Some prices)"

definition vol :: "strategy \<Rightarrow> real list \<Rightarrow> real option list" where
  "vol s prices = shift 1 (rolling_std (nat (lookback s)) (pct_change prices))"

definition up_band :: "strategy \<Rightarrow> real list \<Rightarrow> real option list" where
  "up_band s prices =
     map2 (nan2 (\<lambda>pc v. pc * (1 + k s * v))) (prev_close prices) (vol s prices)"

definition dn_band :: "strategy \<Rightarrow> real list \<Rightarrow> real option list" where
  "dn_band s prices =
     map2 (nan2 (\<lambda>pc v. pc * (1 - k s * v))) (prev_close prices) (vol s prices)"

text \<open>
  \<open>raw\<close> starts at 0, is set to 1 where the price is above the upper band and then, unless
  \<open>long_only\<close>, to -1 where the price is below the lower band (the second assignment wins).
\<close>

definition raw_at :: "bool \<Rightarrow> real \<Rightarrow> real option \<Rightarrow> real option \<Rightarrow> real" where
  "raw_at lo p u d =
     (let r = (if gt_nan p u then 1 else 0)
      in if \<not> lo \<and> lt_nan p d then - 1 else r)"

definition raw :: "strategy \<Rightarrow> real list \<Rightarrow> real list" where
  "raw s prices =
     map (\<lambda>(p, u, d). raw_at (long_only s) p u d)
       (zip prices (zip (up_band s prices) (dn_band s prices)))"

definition held :: "strategy \<Rightarrow> real list \<Rightarrow> real list" where
  "held s prices =
     (if hold s then fillna 0 (ffill (replace_zero (raw s prices))) else raw s prices)"

text \<open>
  \<open>rolling\<close> rejects a negative window with a \<open>ValueError\<close> when it is built, which is the
  only exception \<open>signals\<close> can raise on a list of numbers.
\<close>

definition signals :: "strategy \<Rightarrow> real list \<Rightarrow> pyerror + real list" where
  "signals s prices =
     (if lookback s < 0 then Inl (ValueError ''min_periods must be >= 0'')
      else
        let sig = held s prices
        in Inr (if lag_signal s > 0
                then fillna 0 (shift (nat (lag_signal s)) (map Some sig))
                else sig))"

section \<open>Floor division of floats\<close>

text \<open>
  The engine sizes an entry with \<open>int(self.broker.cash // px)\<close> on two Python floats.
  CPython computes the quotient as follows: the remainder \<open>mod = fmod(vx, wx)\<close> is exact;
  \<open>div = (vx - mod) / wx\<close> is rounded after the subtraction and after the division; when
  the remainder is not zero and differs in sign from the divisor, 1 is subtracted;
  the result is \<open>floor(div)\<close>, plus 1 when \<open>div - floor(div) > 0.5\<close>. A zero divisor raises
  \<open>ZeroDivisionError\<close>. \<open>int\<close> of an infinite quotient raises \<open>OverflowError\<close>.

  \<open>fl\<close> rounds a real number to the nearest binary64 number: 53 significant bits, ties to
  the even significand, gradual underflow below \<open>2^-1022\<close>, and no upper bound, so that a
  rounded value of magnitude \<open>2^1024\<close> or more stands for the float infinity. The difference
  \<open>div - floor(div)\<close> of a binary64 number and its integral part is itself a binary64
  number and is written without rounding.
\<close>

definition round_even :: "real \<Rightarrow> int" where
  "round_even y =
     (let f = \<lfloor>y\<rfloor>; r = y - of_int f
      in if r < 1 / 2 then f else if 1 / 2 < r then f + 1 else if even f then f else f + 1)"

definition expo :: "real \<Rightarrow> int" where
  "expo x = max \<lfloor>log 2 \<bar>x\<bar>\<rfloor> (- 1022)"

definition fl :: "real \<Rightarrow> real" where
  "fl x = (if x = 0 then 0
           else of_int (round_even (x / 2 powi (expo x - 52))) * 2 powi (expo x - 52))"

text \<open>The result of a float operation: a finite number or an infinity.\<close>

datatype pyfloat = Finite real | Infinity

text \<open>The smallest normal binary64 number, and the bound at which rounding overflows.\<close>

definition min_normal :: real where
  "min_normal = 2 powi (- 1022)"

definition float_huge :: real where
  "float_huge = 2 ^ 1024"

text \<open>C's \<open>fmod\<close> is exact; its result has the sign of the dividend.\<close>

definition trunc :: "real \<Rightarrow> int" where
  "trunc z = (if 0 \<le> z then \<lfloor>z\<rfloor> else \<lceil>z\<rceil>)"

definition fmod :: "real \<Rightarrow> real \<Rightarrow> real" where
  "fmod x y = x - y * of_int (trunc (x / y))"

text \<open>\<open>vx // wx\<close> on floats, then \<open>int(...)\<close> of the result.\<close>

definition float_floordiv :: "real \<Rightarrow> real \<Rightarrow> pyerror + pyfloat" where
  "float_floordiv vx wx =
     (if wx = 0 then Inl ZeroDivisionError
      else
        let md = fmod vx wx;
            dv = fl (fl (vx - md) / wx)
        in if float_huge \<le> \<bar>dv\<bar> then Inr Infinity
           else
             let dv = (if md \<noteq> 0 \<and> (wx < 0) \<noteq> (md < 0) then fl (dv - 1) else dv);
                 fd = (if dv \<noteq> 0
                       then let f = of_int \<lfloor>dv\<rfloor>
                            in if dv - f > 1 / 2 then fl (f + 1) else f
                       else 0)
             in Inr (Finite fd))"

definition py_int :: "pyfloat \<Rightarrow> pyerror + int" where
  "py_int x = (case x of Finite y \<Rightarrow> Inr (trunc y) | Infinity \<Rightarrow> Inl OverflowError)"

definition int_floordiv :: "real \<Rightarrow> real \<Rightarrow> pyerror + int" where
  "int_floordiv vx wx =
     (case float_floordiv vx wx of Inl e \<Rightarrow> Inl e | Inr f \<Rightarrow> py_int f)"

text \<open>The binary64 number nearest to 0.3, which is what the literal \<open>0.3\<close> denotes.\<close>

definition float_03 :: real where
  "float_03 = 5404319552844595 / 2 ^ 54"

section \<open>engine.py\<close>

record loop_state =
  bro :: broker
  prev_sig :: real
  equity :: "(nat \<times> real) list"

record run_result =
  r_equity :: "(nat \<times> real) list"
  r_signals :: "real list"
  r_trades :: "trade list"

definition clip :: "real \<Rightarrow> real \<Rightarrow> real \<Rightarrow> real" where
  "clip lo hi x = (if x < lo then lo else if x > hi then hi else x)"

definition normalized :: "real option list \<Rightarrow> real list" where
  "normalized sig = map (clip 0 1) (fillna 0 sig)"

text \<open>
  One pass of the loop body for the observation \<open>(dt, px)\<close>. \<open>sig.loc[dt]\<close> raises
  \<open>KeyError\<close> when the signal has no entry for \<open>dt\<close>; \<open>int(cash // px)\<close> raises
  \<open>ZeroDivisionError\<close> at a zero price and \<open>OverflowError\<close> on an infinite quotient; an
  exception of \<open>market_order\<close> propagates.
\<close>

definition step :: "real list \<Rightarrow> nat \<times> real \<Rightarrow> loop_state \<Rightarrow> pyerror option \<times> loop_state" where
  "step sig obs st =
     (let dt = fst obs; px = snd obs
      in if dt \<ge> length sig then (Some (KeyError dt), st)
         else
           let cur_sig = sig ! dt;
               (err, b) =
                 (if prev_sig st \<le> 0 \<and> cur_sig > 0 then
                    (case int_floordiv (cash (bro st)) px of
                       Inl e \<Rightarrow> (Some e, bro st)
                     | Inr q \<Rightarrow>
                         if q > 0 then market_order (bro st) ''buy'' q px
                         else (None, bro st))
                  else if prev_sig st > 0 \<and> cur_sig \<le> 0 then
                    (let pos = position (bro st)
                     in if pos > 0 then market_order (bro st) ''sell'' pos px
                        else (None, bro st))
                  else (None, bro st))
           in case err of
                Some e \<Rightarrow> (Some e, st\<lparr>bro := b\<rparr>)
              | None \<Rightarrow>
                  (None, \<lparr>bro = b, prev_sig = cur_sig,
                          equity = equity st @ [(dt, total_value b px)]\<rparr>))"

fun run_loop :: "real list \<Rightarrow> (nat \<times> real) list \<Rightarrow> loop_state \<Rightarrow> pyerror option \<times> loop_state" where
  "run_loop sig [] st = (None, st)"
| "run_loop sig (obs # rest) st =
     (case step sig obs st of
        (Some e, st') \<Rightarrow> (Some e, st')
      | (None, st') \<Rightarrow> run_loop sig rest st')"

definition items :: "real list \<Rightarrow> (nat \<times> real) list" where
  "items prices = zip [0..<length prices] prices"

text \<open>
  The engine after the strategy has answered with the series \<open>raw_sig\<close> (any strategy
  object may be plugged in, so its answer may hold NaN and values outside [0, 1]).
  The result is the value returned or the exception raised, and the broker afterwards.
\<close>

definition run_with :: "real option list \<Rightarrow> broker \<Rightarrow> real list \<Rightarrow> (pyerror + run_result) \<times> broker" where
  "run_with raw_sig b prices =
     (let sig = normalized raw_sig
      in case run_loop sig (items prices) \<lparr>bro = b, prev_sig = 0, equity = []\<rparr> of
           (Some e, st) \<Rightarrow> (Inl e, bro st)
         | (None, st) \<Rightarrow>
             (Inr \<lparr>r_equity = equity st, r_signals = sig, r_trades = trade_log (bro st)\<rparr>,
              bro st))"

definition run :: "strategy \<Rightarrow> broker \<Rightarrow> real list \<Rightarrow> (pyerror + run_result) \<times> broker" where
  "run s b prices =
     (case signals s prices of
        Inl e \<Rightarrow> (Inl e, b)
      | Inr sig \<Rightarrow> run_with (map Some sig) b prices)"

text \<open>The loop's state once the first \<open>n\<close> observations have been processed.\<close>

definition state_after :: "real list \<Rightarrow> real list \<Rightarrow> broker \<Rightarrow> nat \<Rightarrow> loop_state" where
  "state_after sig prices b n =
     snd (run_loop sig (take n (items prices)) \<lparr>bro = b, prev_sig = 0, equity = []\<rparr>)"

section \<open>Rounding and the floor division\<close>

lemma round_even_error: "\<bar>of_int (round_even y) - y\<bar> \<le> 1 / 2"
  unfolding round_even_def Let_def by (auto; linarith)

lemma round_even_of_int [simp]: "round_even (of_int j) = j"
  by (simp add: round_even_def)

lemma expo_ge: "- 1022 \<le> expo x"
  by (simp add: expo_def)

lemma floor_log2_iff:
  assumes "0 < x"
  shows "\<lfloor>log 2 x\<rfloor> = e \<longleftrightarrow> 2 powi e \<le> x \<and> x < 2 powi (e + 1)"
proof -
  have 1: "(2::real) powr of_int e = 2 powi e"
    by (rule powr_real_of_int') simp_all
  have "(2::real) powr of_int (e + 1) = 2 powi (e + 1)"
    by (rule powr_real_of_int') simp_all
  then have 2: "(2::real) powr (of_int e + 1) = 2 powi (e + 1)" by simp
  show ?thesis using floor_log_eq_powr_iff [of x 2 e] assms by (simp add: 1 2)
qed

lemma abs_pos_of_ge_powi: "2 powi e \<le> \<bar>x::real\<bar> \<Longrightarrow> 0 < \<bar>x\<bar>"
  using zero_less_power_int [of "2::real" e] by linarith

lemma expo_eqI:
  assumes "2 powi e \<le> \<bar>x\<bar>" and "\<bar>x\<bar> < 2 powi (e + 1)" and "- 1022 \<le> e"
  shows "expo x = e"
proof -
  have "\<lfloor>log 2 \<bar>x\<bar>\<rfloor> = e"
    using assms abs_pos_of_ge_powi [OF assms(1)] by (simp add: floor_log2_iff)
  then show ?thesis using assms(3) by (simp add: expo_def)
qed

lemma min_normal_pos: "0 < min_normal"
  by (simp add: min_normal_def)

lemma min_normal_le_half: "min_normal \<le> 1 / 2"
proof -
  have "(2::real) powi (- 1022) \<le> 2 powi (- 1)" by (intro power_int_increasing) simp_all
  then show ?thesis by (simp add: min_normal_def inverse_eq_divide del: power_int_minus)
qed

lemma float_huge_big: "2 ^ 50 + 1 \<le> float_huge"
proof -
  have "(2::real) ^ 50 + 1 \<le> 2 ^ 51" by simp
  also have "\<dots> \<le> 2 ^ 1024" by (intro power_increasing) simp_all
  finally show ?thesis by (simp only: float_huge_def)
qed

lemma expo_normal:
  assumes "min_normal \<le> \<bar>x\<bar>"
  shows "2 powi (expo x) \<le> \<bar>x\<bar> \<and> \<bar>x\<bar> < 2 powi (expo x + 1)"
proof -
  let ?e = "\<lfloor>log 2 \<bar>x\<bar>\<rfloor>"
  have pos: "0 < \<bar>x\<bar>" using assms min_normal_pos by linarith
  have b: "2 powi ?e \<le> \<bar>x\<bar> \<and> \<bar>x\<bar> < 2 powi (?e + 1)"
    using floor_log2_iff [OF pos, of ?e] by simp
  have "- 1022 \<le> ?e"
  proof (rule ccontr)
    assume "\<not> - 1022 \<le> ?e"
    then have "?e + 1 \<le> - 1022" by linarith
    then have "(2::real) powi (?e + 1) \<le> 2 powi (- 1022)"
      by (intro power_int_increasing) simp_all
    with b assms show False unfolding min_normal_def by linarith
  qed
  then have "expo x = ?e" by (simp add: expo_def)
  with b show ?thesis by simp
qed

lemma fl_abs_error:
  assumes "x \<noteq> 0"
  shows "\<bar>fl x - x\<bar> \<le> 2 powi (expo x - 52) / 2"
proof -
  let ?q = "(2::real) powi (expo x - 52)"
  have q: "0 < ?q" by simp
  have "fl x - x = ?q * (of_int (round_even (x / ?q)) - x / ?q)"
    using assms q by (simp add: fl_def field_simps)
  then have "\<bar>fl x - x\<bar> = ?q * \<bar>of_int (round_even (x / ?q)) - x / ?q\<bar>"
    using q by (simp add: abs_mult)
  also have "\<dots> \<le> ?q * (1 / 2)"
    using q round_even_error [of "x / ?q"] by (intro mult_left_mono) simp_all
  finally show ?thesis by simp
qed

lemma fl_rel_error:
  assumes "min_normal \<le> \<bar>x\<bar>"
  shows "\<bar>fl x - x\<bar> \<le> \<bar>x\<bar> / 2 ^ 53"
proof -
  have x: "x \<noteq> 0" using assms min_normal_pos by auto
  have "(2::real) powi (expo x - 52) / 2 = 2 powi (expo x) / 2 ^ 53"
    by (simp add: power_int_diff)
  also have "\<dots> \<le> \<bar>x\<bar> / 2 ^ 53"
    using expo_normal [OF assms] by (simp add: divide_right_mono)
  finally show ?thesis using fl_abs_error [OF x] by linarith
qed


lemma fl_exact:
  assumes "x / 2 powi (expo x - 52) = of_int m"
  shows "fl x = x"
proof (cases "x = 0")
  case True
  then show ?thesis by (simp add: fl_def)
next
  case False
  have "fl x = of_int m * 2 powi (expo x - 52)"
    using False assms by (simp add: fl_def)
  also have "\<dots> = x / 2 powi (expo x - 52) * 2 powi (expo x - 52)"
    using assms by simp
  also have "\<dots> = x" by simp
  finally show ?thesis .
qed

lemma fl_of_int:
  assumes "\<bar>j\<bar> \<le> 2 ^ 53"
  shows "fl (of_int j) = of_int j"
proof (cases "j = 0")
  case True
  then show ?thesis by (simp add: fl_def)
next
  case False
  let ?x = "of_int j :: real"
  let ?e = "expo ?x"
  have j1: "1 \<le> \<bar>?x\<bar>" using False by (simp flip: of_int_abs)
  from j1 min_normal_le_half have "min_normal \<le> \<bar>?x\<bar>" by linarith
  from expo_normal [OF this]
  have lo: "2 powi ?e \<le> \<bar>?x\<bar>" and hi: "\<bar>?x\<bar> < 2 powi (?e + 1)" by simp_all
  have e0: "0 \<le> ?e"
  proof (rule ccontr)
    assume "\<not> 0 \<le> ?e"
    then have "?e + 1 \<le> 0" by linarith
    then have "(2::real) powi (?e + 1) \<le> 2 powi 0" by (intro power_int_increasing) simp_all
    with hi j1 show False by simp
  qed
  have j53: "\<bar>?x\<bar> \<le> 2 powi 53"
    using assms by (simp flip: of_int_abs)
  have e53: "?e \<le> 53"
  proof (rule ccontr)
    assume "\<not> ?e \<le> 53"
    then have "54 \<le> ?e" by linarith
    then have "(2::real) powi 54 \<le> 2 powi ?e" by (intro power_int_increasing) simp_all
    with lo j53 show False by simp
  qed
  show ?thesis
  proof (cases "?e = 53")
    case True
    with lo j53 have "\<bar>?x\<bar> = 2 ^ 53" by simp
    then have "\<bar>j\<bar> = 2 ^ 53" by (metis of_int_abs of_int_eq_iff of_int_numeral of_int_power)
    then have "j = 2 ^ 53 \<or> j = - (2 ^ 53)" by linarith
    then have "j = 2 * (j div 2)" by (elim disjE) simp_all
    then have "?x / 2 powi (?e - 52) = of_int (j div 2)"
      using True by simp
    then show ?thesis by (rule fl_exact)
  next
    case False
    with e53 have le: "?e \<le> 52" by simp
    have "(2::real) powi (?e - 52) = 1 / 2 ^ nat (52 - ?e)"
      using le by (simp add: power_int_def inverse_eq_divide power_one_over flip: power_inverse)
    then have "?x / 2 powi (?e - 52) = of_int (j * 2 ^ nat (52 - ?e))" by simp
    then show ?thesis by (rule fl_exact)
  qed
qed


lemma trunc_of_int [simp]: "trunc (of_int n) = n"
  by (simp add: trunc_def)

lemma snap_nearest:
  fixes d :: real and n :: int
  assumes "\<bar>d - of_int n\<bar> < 1 / 2" and "\<bar>n\<bar> \<le> 2 ^ 53"
  shows "(let f = of_int \<lfloor>d\<rfloor> in if d - f > 1 / 2 then fl (f + 1) else f) = of_int n"
proof (cases "of_int n \<le> d")
  case True
  with assms(1) have "\<lfloor>d\<rfloor> = n" by (intro floor_unique) linarith+
  with True assms(1) show ?thesis by (simp add: Let_def)
next
  case False
  with assms(1) have f: "\<lfloor>d\<rfloor> = n - 1" by (intro floor_unique) (simp, linarith+)
  have "fl (of_int (n - 1) + 1) = of_int n"
    using fl_of_int [OF assms(2)] by simp
  with False assms(1) f show ?thesis by (simp add: Let_def)
qed

lemma trunc_0 [simp]: "trunc 0 = 0"
  by (simp add: trunc_def)

lemma int_floordiv_plain:
  assumes "wx \<noteq> 0"
    and "fmod vx wx = 0 \<or> (wx < 0) = (fmod vx wx < 0)"
    and "\<not> float_huge \<le> \<bar>fl (fl (vx - fmod vx wx) / wx)\<bar>"
  shows "int_floordiv vx wx =
           Inr (trunc (let dv = fl (fl (vx - fmod vx wx) / wx)
                       in if dv \<noteq> 0
                          then let f = of_int \<lfloor>dv\<rfloor>
                               in if dv - f > 1 / 2 then fl (f + 1) else f
                          else 0))"
  using assms
  by (simp only: int_floordiv_def float_floordiv_def Let_def py_int_def) auto

lemma int_floordiv_exact:
  assumes "0 \<le> vx" and "min_normal \<le> wx" and "vx / wx < 2 ^ 50"
  shows "int_floordiv vx wx = Inr \<lfloor>vx / wx\<rfloor>"
proof -
  let ?n = "\<lfloor>vx / wx\<rfloor>"
  have wx: "0 < wx" using assms(2) min_normal_pos by linarith
  have q0: "0 \<le> vx / wx" using assms(1) wx by simp
  then have n0: "0 \<le> ?n" by simp
  have nle: "of_int ?n \<le> vx / wx" by simp
  then have n50: "real_of_int ?n < 2 ^ 50" using assms(3) by linarith
  have md: "fmod vx wx = vx - wx * of_int ?n"
    using q0 by (simp add: fmod_def trunc_def)
  have md0: "0 \<le> fmod vx wx"
  proof -
    have "wx * of_int ?n \<le> wx * (vx / wx)" using wx nle by (intro mult_left_mono) simp_all
    then show ?thesis using wx by (simp add: md)
  qed
  have z: "vx - fmod vx wx = wx * of_int ?n" by (simp add: md)
  have noadj: "fmod vx wx = 0 \<or> (wx < 0) = (fmod vx wx < 0)"
    using wx md0 by auto
  have wx0: "wx \<noteq> 0" using wx by simp
  show ?thesis
  proof (cases "?n = 0")
    case True
    then have d0: "fl (fl (vx - fmod vx wx) / wx) = 0" by (simp add: z fl_def)
    then have "\<not> float_huge \<le> \<bar>fl (fl (vx - fmod vx wx) / wx)\<bar>"
      using float_huge_big by simp
    from int_floordiv_plain [OF wx0 noadj this] show ?thesis
      using True by (simp add: d0)
  next
    case False
    with n0 have n1: "1 \<le> real_of_int ?n" by linarith
    let ?z = "wx * of_int ?n"
    let ?t = "fl ?z / wx"
    let ?d = "fl ?t"
    have zpos: "0 < ?z" using wx n1 by simp
    have "wx * 1 \<le> ?z" using wx n1 by (intro mult_left_mono) simp_all
    with assms(2) have "min_normal \<le> \<bar>?z\<bar>" by simp
    from fl_rel_error [OF this] zpos have "\<bar>fl ?z - ?z\<bar> \<le> ?z / 2 ^ 53" by simp
    then have "\<bar>fl ?z - ?z\<bar> / wx \<le> ?z / 2 ^ 53 / wx"
      using wx by (intro divide_right_mono) simp_all
    moreover have "?t - of_int ?n = (fl ?z - ?z) / wx"
      using wx by (simp add: field_simps)
    moreover have "\<bar>(fl ?z - ?z) / wx\<bar> = \<bar>fl ?z - ?z\<bar> / wx"
      using wx by (simp only: abs_divide abs_of_pos)
    moreover have "?z / 2 ^ 53 / wx = of_int ?n / 2 ^ 53"
      using wx by simp
    ultimately have t: "\<bar>?t - of_int ?n\<bar> \<le> of_int ?n / 2 ^ 53"
      by (simp only:)
    have "of_int ?n / 2 ^ 53 \<le> of_int ?n / (2::real)" using n1
      by (intro divide_left_mono) simp_all
    with t n1 have thalf: "1 / 2 \<le> ?t" by linarith
    from thalf min_normal_le_half have "min_normal \<le> \<bar>?t\<bar>" by linarith
    from fl_rel_error [OF this] thalf have d: "\<bar>?d - ?t\<bar> \<le> ?t / 2 ^ 53" by simp
    have tn: "?t \<le> of_int ?n + of_int ?n / 2 ^ 53" using t by linarith
    have "?t / 2 ^ 53 \<le> (of_int ?n + of_int ?n / 2 ^ 53) / 2 ^ 53"
      using tn by (intro divide_right_mono) simp_all
    also have "\<dots> \<le> (2 * of_int ?n) / 2 ^ 53" using n1 by (intro divide_right_mono) simp_all
    finally have "\<bar>?d - ?t\<bar> \<le> 2 * of_int ?n / 2 ^ 53" using d by linarith
    with t have "\<bar>?d - of_int ?n\<bar> \<le> 3 * of_int ?n / 2 ^ 53" by linarith
    also have "\<dots> < 3 * 2 ^ 50 / 2 ^ 53" using n50 by (intro divide_strict_right_mono) simp_all
    also have "\<dots> < (1::real) / 2" by simp
    finally have near: "\<bar>?d - of_int ?n\<bar> < 1 / 2" .
    have n53: "\<bar>?n\<bar> \<le> 2 ^ 53"
    proof -
      have "real_of_int ?n \<le> 2 ^ 53" using n50 by simp
      then have "?n \<le> 2 ^ 53" by (metis of_int_le_iff of_int_numeral of_int_power)
      with n0 show ?thesis by simp
    qed
    have dn0: "?d \<noteq> 0" using near n1 by linarith
    have "\<bar>?d\<bar> < 2 ^ 50 + 1" using near n50 n1 by linarith
    with float_huge_big have small: "\<not> float_huge \<le> \<bar>?d\<bar>" by linarith
    have small': "\<not> float_huge \<le> \<bar>fl (fl (vx - fmod vx wx) / wx)\<bar>"
      using small by (simp add: z)
    have "(let dv = fl (fl (vx - fmod vx wx) / wx)
           in if dv \<noteq> 0
              then let f = of_int \<lfloor>dv\<rfloor> in if dv - f > 1 / 2 then fl (f + 1) else f
              else 0) = of_int ?n"
      using snap_nearest [OF near n53] dn0 by (simp add: z Let_def)
    with int_floordiv_plain [OF wx0 noadj small'] show ?thesis by simp
  qed
qed


lemma fl_at:
  assumes "2 powi e \<le> \<bar>x\<bar>" and "\<bar>x\<bar> < 2 powi (e + 1)" and "- 1022 \<le> e"
  shows "fl x = of_int (round_even (x / 2 powi (e - 52))) * 2 powi (e - 52)"
proof -
  have "x \<noteq> 0" using abs_pos_of_ge_powi [OF assms(1)] by auto
  then show ?thesis using expo_eqI [OF assms] by (simp add: fl_def)
qed

lemma float_huge_ge: "2 ^ 64 \<le> float_huge"
  unfolding float_huge_def by (intro power_increasing) simp_all

lemma fmod_7e15: "fmod 7000000000000000 float_03 = 531893482385135 / 9007199254740992"
  by (simp add: fmod_def trunc_def float_03_def)

lemma fl_7e15: "fl (7000000000000000 - 531893482385135 / 9007199254740992) = 7000000000000000"
  by (subst fl_at [where e = 52]) (simp_all add: round_even_def)

lemma fl_quot: "fl (7000000000000000 / float_03) = 23333333333333336"
  by (subst fl_at [where e = 54]) (simp_all add: round_even_def float_03_def)

lemma int_floordiv_7e15: "int_floordiv 7000000000000000 float_03 = Inr 23333333333333336"
proof -
  have nz: "float_03 \<noteq> 0" by (simp add: float_03_def)
  have sg: "fmod 7000000000000000 float_03 = 0 \<or>
            (float_03 < 0) = (fmod 7000000000000000 float_03 < 0)"
    by (simp add: fmod_7e15) (simp add: float_03_def)
  have d: "fl (fl (7000000000000000 - fmod 7000000000000000 float_03) / float_03) =
           23333333333333336"
    by (simp only: fmod_7e15 fl_7e15 fl_quot)
  have "\<not> float_huge \<le> \<bar>fl (fl (7000000000000000 - fmod 7000000000000000 float_03) / float_03)\<bar>"
    using float_huge_ge by (simp only: d) simp
  from int_floordiv_plain [OF nz sg this] show ?thesis
    by (simp only: d Let_def) (simp add: trunc_def)
qed

lemma floor_7e15: "\<lfloor>7000000000000000 / float_03\<rfloor> = 23333333333333334"
  by (simp add: float_03_def)

lemma int_floordiv_Inl:
  assumes "int_floordiv vx wx = Inl e"
  shows "(wx = 0 \<and> e = ZeroDivisionError) \<or> (wx \<noteq> 0 \<and> e = OverflowError)"
  using assms
  by (auto simp add: int_floordiv_def float_floordiv_def py_int_def Let_def
      split: if_splits sum.splits pyfloat.splits)

lemma min_normal_le: "1 \<le> x \<Longrightarrow> min_normal \<le> x"
  using min_normal_le_half by linarith

text \<open>
  A quotient beyond the binary64 range: \<open>2^20 // 2^-1010\<close> is the float infinity, and
  \<open>int\<close> of it raises.
\<close>

lemma int_floordiv_overflow: "int_floordiv (2 ^ 20) (1 / 2 ^ 1010) = Inl OverflowError"
proof -
  have q: "(2::real) ^ 20 / (1 / 2 ^ 1010) = 2 ^ 1030" by simp
  have m: "fmod (2 ^ 20) (1 / 2 ^ 1010) = 0"
  proof -
    have "trunc ((2::real) ^ 20 / (1 / 2 ^ 1010)) = 2 ^ 1030"
      using trunc_of_int [of "2 ^ 1030"] by (simp only: q of_int_power of_int_numeral)
    then show ?thesis unfolding fmod_def by simp
  qed
  have a: "fl (2 ^ 20) = 2 ^ 20"
    using fl_of_int [of "2 ^ 20"] by simp
  have "expo (2 ^ 1030) = 1030" by (rule expo_eqI) simp_all
  then have "(2::real) ^ 1030 / 2 powi (expo (2 ^ 1030) - 52) = of_int (2 ^ 52)" by simp
  then have "fl (2 ^ 1030) = (2::real) ^ 1030" by (rule fl_exact)
  moreover have "float_huge \<le> (2::real) ^ 1030"
    unfolding float_huge_def by (intro power_increasing) simp_all
  ultimately have
    "float_huge \<le> \<bar>fl (fl (2 ^ 20 - fmod (2 ^ 20) (1 / 2 ^ 1010)) / (1 / 2 ^ 1010))\<bar>"
    by (simp only: m a q diff_zero)
  then show ?thesis
    by (simp add: int_floordiv_def float_floordiv_def py_int_def Let_def)
qed

section \<open>The broker\<close>

lemma lower_buy: "lower ''buy'' = ''buy''"
  by (simp add: lower_def lower_char_def)

lemma lower_sell: "lower ''sell'' = ''sell''"
  by (simp add: lower_def lower_char_def)

lemma lower_upper_case: "lower ''BUY'' = ''buy'' \<and> lower ''Sell'' = ''sell''"
  by code_simp

lemma market_order_raises_iff:
  "fst (market_order b sd q px) \<noteq> None \<longleftrightarrow> q \<le> 0 \<or> px \<le> 0"
  by (simp add: market_order_def Let_def)

lemma market_order_failure_unchanged:
  "fst (market_order b sd q px) \<noteq> None \<Longrightarrow> snd (market_order b sd q px) = b"
  by (simp add: market_order_def Let_def split: if_splits)

lemma market_order_buy:
  "0 < q \<Longrightarrow> 0 < px \<Longrightarrow> market_order b ''buy'' q px =
     (None, \<lparr>cash = cash b - of_int q * px, position = position b + q,
       trade_log = trade_log b @ [\<lparr>side = ''buy'', qty = q, price = px,
          cash_after = cash b - of_int q * px, position_after = position b + q\<rparr>]\<rparr>)"
  by (simp add: market_order_def lower_buy)

lemma market_order_sell:
  "0 < q \<Longrightarrow> 0 < px \<Longrightarrow> market_order b ''sell'' q px =
     (None, \<lparr>cash = cash b + of_int q * px, position = position b - q,
       trade_log = trade_log b @ [\<lparr>side = ''sell'', qty = q, price = px,
          cash_after = cash b + of_int q * px, position_after = position b - q\<rparr>]\<rparr>)"
  by (simp add: market_order_def lower_sell lower_def lower_char_def)

text \<open>
  C1. \<open>market_order\<close> should raise exactly for a non-positive quantity, a non-positive
  price or a side that is neither buy nor sell, and leave the ledger alone when it raises.
  The two numeric checks are there (\<open>market_order_raises_iff\<close>,
  \<open>market_order_failure_unchanged\<close>), but the \<open>if/elif\<close> on the side has no \<open>else\<close>:
  an order with the side \<open>hold\<close>, quantity 1 and price 10 raises nothing, moves neither cash
  nor position, and is nevertheless appended to the trade history.
\<close>

theorem market_order_unrecognised_side:
  "market_order (Broker 1000) ''hold'' 1 10 =
     (None, \<lparr>cash = 1000, position = 0,
        trade_log = [\<lparr>side = ''hold'', qty = 1, price = 10,
                      cash_after = 1000, position_after = 0\<rparr>]\<rparr>)"
  by (simp add: market_order_def Broker_def lower_def lower_char_def)

section \<open>One step of the engine\<close>

lemma step_entry:
  assumes "dt < length sig" and "prev_sig st \<le> 0" and "0 < sig ! dt" and "0 < px"
  shows "step sig (dt, px) st =
           (case int_floordiv (cash (bro st)) px of
              Inl e \<Rightarrow> (Some e, st)
            | Inr q \<Rightarrow>
                if 0 < q
                then (None, \<lparr>bro = snd (market_order (bro st) ''buy'' q px), prev_sig = sig ! dt,
                       equity = equity st @
                         [(dt, total_value (snd (market_order (bro st) ''buy'' q px)) px)]\<rparr>)
                else (None, \<lparr>bro = bro st, prev_sig = sig ! dt,
                       equity = equity st @ [(dt, total_value (bro st) px)]\<rparr>))"
  using assms by (simp add: step_def Let_def market_order_buy split: sum.splits)

text \<open>
  C2, as the spec has it, takes the quantity bought to be \<open>floor (cash / price)\<close>. With
  cash \<open>7e15\<close> and the price \<open>0.3\<close> the float floor division gives 23333333333333336,
  two more than the floor of the quotient, and that is what the engine buys.
\<close>

theorem entry_sizing_counterexample:
  "map qty (trade_log (bro (snd (step [1] (0, float_03)
      \<lparr>bro = Broker 7000000000000000, prev_sig = 0, equity = []\<rparr>)))) = [23333333333333336] \<and>
   \<lfloor>cash (Broker 7000000000000000) / float_03\<rfloor> = 23333333333333334"
proof -
  have p: "0 < float_03" by (simp add: float_03_def)
  have "step [1] (0, float_03) \<lparr>bro = Broker 7000000000000000, prev_sig = 0, equity = []\<rparr> =
          (None, \<lparr>bro = snd (market_order (Broker 7000000000000000) ''buy''
                              23333333333333336 float_03),
                  prev_sig = 1,
                  equity = [(0, total_value (snd (market_order (Broker 7000000000000000) ''buy''
                              23333333333333336 float_03)) float_03)]\<rparr>)"
    using step_entry [of 0 "[1]" "\<lparr>bro = Broker 7000000000000000, prev_sig = 0, equity = []\<rparr>"
        float_03] p
    by (simp add: Broker_def int_floordiv_7e15)
  then show ?thesis
    using p floor_7e15 by (simp add: market_order_buy Broker_def)
qed

text \<open>
  C2, as the code has it. At an entry transition (previous exposure \<open>\<le> 0\<close>, normalized
  exposure \<open>> 0\<close>) on a positive price the engine computes the quantity \<open>int(cash // price)\<close>
  by the float floor division. If the quotient is infinite the step raises
  \<open>OverflowError\<close> and leaves the state alone. Otherwise nothing is raised: a positive
  quantity is bought (the position rises by it and the trade is recorded with it), and
  for a quantity \<open>\<le> 0\<close> the ledger is untouched. The quantity is \<open>floor (cash / price)\<close>
  whenever cash is not negative, the price is at least \<open>2^-1022\<close> and the quotient is
  below \<open>2^50\<close>. With cash 1000 and price 30 the quantity is 33 and the cash left is 10.
\<close>

theorem entry_sizing:
  assumes "dt < length sig" and "prev_sig st \<le> 0" and "0 < sig ! dt" and "0 < px"
  shows "(case int_floordiv (cash (bro st)) px of
            Inl e \<Rightarrow> e = OverflowError \<and> step sig (dt, px) st = (Some OverflowError, st)
          | Inr q \<Rightarrow>
              fst (step sig (dt, px) st) = None \<and>
              (0 < q \<longrightarrow>
                 position (bro (snd (step sig (dt, px) st))) = position (bro st) + q \<and>
                 (\<exists>c. trade_log (bro (snd (step sig (dt, px) st))) =
                    trade_log (bro st) @
                      [\<lparr>side = ''buy'', qty = q, price = px, cash_after = c,
                        position_after = position (bro st) + q\<rparr>])) \<and>
              (q \<le> 0 \<longrightarrow> bro (snd (step sig (dt, px) st)) = bro st)) \<and>
         (0 \<le> cash (bro st) \<and> min_normal \<le> px \<and> cash (bro st) / px < 2 ^ 50 \<longrightarrow>
            int_floordiv (cash (bro st)) px = Inr \<lfloor>cash (bro st) / px\<rfloor>) \<and>
         (cash (bro st) = 1000 \<and> px = 30 \<longrightarrow>
            bro (snd (step sig (dt, px) st)) =
              \<lparr>cash = 10, position = position (bro st) + 33,
               trade_log = trade_log (bro st) @
                 [\<lparr>side = ''buy'', qty = 33, price = 30, cash_after = 10,
                   position_after = position (bro st) + 33\<rparr>]\<rparr>)"
proof -
  note se = step_entry [OF assms]
  have 1: "e = OverflowError \<and> step sig (dt, px) st = (Some OverflowError, st)"
    if "int_floordiv (cash (bro st)) px = Inl e" for e
    using int_floordiv_Inl [OF that] assms(4) se that by simp
  have 2: "fst (step sig (dt, px) st) = None \<and>
           (0 < q \<longrightarrow>
              position (bro (snd (step sig (dt, px) st))) = position (bro st) + q \<and>
              (\<exists>c. trade_log (bro (snd (step sig (dt, px) st))) =
                 trade_log (bro st) @
                   [\<lparr>side = ''buy'', qty = q, price = px, cash_after = c,
                     position_after = position (bro st) + q\<rparr>])) \<and>
           (q \<le> 0 \<longrightarrow> bro (snd (step sig (dt, px) st)) = bro st)"
    if "int_floordiv (cash (bro st)) px = Inr q" for q
    using se that assms(4) by (simp add: market_order_buy)
  have 3: "int_floordiv (cash (bro st)) px = Inr \<lfloor>cash (bro st) / px\<rfloor>"
    if "0 \<le> cash (bro st)" and "min_normal \<le> px" and "cash (bro st) / px < 2 ^ 50"
    using int_floordiv_exact [OF that] .
  have 4: "bro (snd (step sig (dt, px) st)) =
              \<lparr>cash = 10, position = position (bro st) + 33,
               trade_log = trade_log (bro st) @
                 [\<lparr>side = ''buy'', qty = 33, price = 30, cash_after = 10,
                   position_after = position (bro st) + 33\<rparr>]\<rparr>"
    if c: "cash (bro st) = 1000" and p: "px = 30"
  proof -
    have "int_floordiv 1000 30 = Inr \<lfloor>(1000::real) / 30\<rfloor>"
      by (rule int_floordiv_exact) (simp_all add: min_normal_le)
    then have "int_floordiv (cash (bro st)) px = Inr 33" using c p by simp
    with se c p show ?thesis by (simp add: market_order_buy)
  qed
  show ?thesis using 1 2 3 4 by (simp split: sum.splits)
qed

text \<open>With cash 1000 and price 30 the quantity is 33 and 10 is left.\<close>

theorem entry_sizing_witness:
  "bro (snd (step [1] (0, 30) \<lparr>bro = Broker 1000, prev_sig = 0, equity = []\<rparr>)) =
     \<lparr>cash = 10, position = 33,
      trade_log = [\<lparr>side = ''buy'', qty = 33, price = 30,
                    cash_after = 10, position_after = 33\<rparr>]\<rparr>"
  using entry_sizing [of 0 "[1]" "\<lparr>bro = Broker 1000, prev_sig = 0, equity = []\<rparr>" 30]
  by (simp add: Broker_def)

text \<open>
  C3. Exit liquidation: at an exit transition (previous exposure \<open>> 0\<close>, normalized exposure
  \<open>\<le> 0\<close>) on a positive price, the step raises nothing; with a positive position it sells
  the whole position (the recorded quantity is the position before, the position after is
  0); with a position \<open>\<le> 0\<close> the ledger is untouched.
\<close>

theorem exit_liquidation:
  assumes "dt < length sig" and "0 < prev_sig st" and "sig ! dt \<le> 0" and "0 < px"
  shows "fst (step sig (dt, px) st) = None \<and>
         (0 < position (bro st) \<longrightarrow>
            bro (snd (step sig (dt, px) st)) =
              \<lparr>cash = cash (bro st) + of_int (position (bro st)) * px,
               position = 0,
               trade_log = trade_log (bro st) @
                 [\<lparr>side = ''sell'', qty = position (bro st), price = px,
                   cash_after = cash (bro st) + of_int (position (bro st)) * px,
                   position_after = 0\<rparr>]\<rparr>) \<and>
         (position (bro st) \<le> 0 \<longrightarrow> bro (snd (step sig (dt, px) st)) = bro st)"
  using assms by (simp add: step_def Let_def market_order_sell)

theorem exit_liquidation_witness:
  "bro (snd (step [0] (0, 32)
          \<lparr>bro = \<lparr>cash = 10, position = 33, trade_log = []\<rparr>, prev_sig = 1, equity = []\<rparr>)) =
     \<lparr>cash = 1066, position = 0,
      trade_log = [\<lparr>side = ''sell'', qty = 33, price = 32,
                    cash_after = 1066, position_after = 0\<rparr>]\<rparr>"
  using exit_liquidation [of 0 "[0]"
      "\<lparr>bro = \<lparr>cash = 10, position = 33, trade_log = []\<rparr>, prev_sig = 1, equity = []\<rparr>" 32]
  by simp

section \<open>The strategy\<close>

text \<open>
  C8. Construction is claimed to reject a negative lookback, k or lag. The constructor has
  no check: built with lookback -5, k -1 and lag -2 it returns the object, and the
  negative lookback is met only later, by \<open>signals\<close>.
\<close>

theorem construction_counterexample:
  "VolatilityBreakoutStrategy (- 5) (- 1) True (- 2) True =
     Inr \<lparr>lookback = - 5, k = - 1, hold = True, lag_signal = - 2, long_only = True\<rparr> \<and>
   signals \<lparr>lookback = - 5, k = - 1, hold = True, lag_signal = - 2, long_only = True\<rparr> [1, 2] =
     Inl (ValueError ''min_periods must be >= 0'')"
  by (simp add: VolatilityBreakoutStrategy_def signals_def)

text \<open>
  C8, as the code has it: construction never raises and stores the parameters as given;
  \<open>signals\<close> raises exactly when the stored lookback is negative (a negative k or lag is
  never rejected).
\<close>

theorem construction_never_raises:
  "VolatilityBreakoutStrategy lb kk h lag lo =
     Inr \<lparr>lookback = lb, k = kk, hold = h, lag_signal = lag, long_only = lo\<rparr> \<and>
   (isl (signals \<lparr>lookback = lb, k = kk, hold = h, lag_signal = lag, long_only = lo\<rparr> prices)
      \<longleftrightarrow> lb < 0)"
  by (simp add: VolatilityBreakoutStrategy_def signals_def Let_def)

theorem construction_never_raises_witness:
  "VolatilityBreakoutStrategy 20 (- 1) True (- 3) False =
     Inr \<lparr>lookback = 20, k = - 1, hold = True, lag_signal = - 3, long_only = False\<rparr> \<and>
   \<not> isl (signals \<lparr>lookback = 20, k = - 1, hold = True, lag_signal = - 3, long_only = False\<rparr> [])"
  using construction_never_raises [of 20 "- 1" True "- 3" False "[]"] by simp

subsection \<open>Lengths and ranges of the intermediate series\<close>

lemma length_shift [simp]: "length (shift n xs) = length xs"
  by (simp add: shift_def)

lemma nth_shift:
  "t < length xs \<Longrightarrow> shift n xs ! t = (if t < n then None else xs ! (t - n))"
  by (auto simp add: shift_def nth_append)

lemma length_fillna [simp]: "length (fillna v xs) = length xs"
  by (simp add: fillna_def)

lemma length_pct_from [simp]: "length (pct_from p ps) = length ps"
  by (induction ps arbitrary: p) auto

lemma length_pct_change [simp]: "length (pct_change ps) = length ps"
  by (simp add: pct_change_def split: list.splits)

lemma length_rolling_std [simp]: "length (rolling_std w xs) = length xs"
  by (simp add: rolling_std_def)

lemma length_vol [simp]: "length (vol s ps) = length ps"
  by (simp add: vol_def)

lemma length_prev_close [simp]: "length (prev_close ps) = length ps"
  by (simp add: prev_close_def)

lemma length_up_band [simp]: "length (up_band s ps) = length ps"
  by (simp add: up_band_def)

lemma length_dn_band [simp]: "length (dn_band s ps) = length ps"
  by (simp add: dn_band_def)

lemma length_raw [simp]: "length (raw s ps) = length ps"
  by (simp add: raw_def)

lemma length_ffill_from [simp]: "length (ffill_from c xs) = length xs"
  by (induction c xs rule: ffill_from.induct) auto

lemma length_held [simp]: "length (held s ps) = length ps"
  by (simp add: held_def ffill_def replace_zero_def)

lemma raw_at_range: "raw_at lo p u d \<in> {- 1, 0, 1}"
  by (simp add: raw_at_def Let_def)

lemma raw_at_long_only: "raw_at True p u d \<in> {0, 1}"
  by (simp add: raw_at_def Let_def)

lemma set_raw: "set (raw s ps) \<subseteq> {- 1, 0, 1}"
  using raw_at_range by (auto simp add: raw_def)

lemma set_raw_long_only: "long_only s \<Longrightarrow> set (raw s ps) \<subseteq> {0, 1}"
  using raw_at_long_only by (auto simp add: raw_def)

lemma set_ffill_from: "set (ffill_from c xs) \<subseteq> insert c (set xs)"
  by (induction c xs rule: ffill_from.induct) auto

lemma set_hold_fill: "set (fillna 0 (ffill (replace_zero xs))) \<subseteq> insert 0 (set xs)"
proof
  fix y assume "y \<in> set (fillna 0 (ffill (replace_zero xs)))"
  then obtain z where z: "z \<in> set (ffill_from None (replace_zero xs))"
    and y: "y = (case z of None \<Rightarrow> 0 | Some v \<Rightarrow> v)"
    by (auto simp add: fillna_def ffill_def)
  from z set_ffill_from have "z = None \<or> z \<in> set (replace_zero xs)" by fastforce
  then show "y \<in> insert 0 (set xs)"
    using y by (auto simp add: replace_zero_def split: if_splits)
qed

lemma set_held: "set (held s ps) \<subseteq> insert 0 (set (raw s ps))"
  using set_hold_fill by (auto simp add: held_def)

lemma set_lagged: "set (fillna 0 (shift n (map Some xs))) \<subseteq> insert 0 (set xs)"
  by (auto simp add: fillna_def shift_def take_map dest: in_set_takeD)

lemma signals_Inr:
  "0 \<le> lookback s \<Longrightarrow>
   signals s ps = Inr (if lag_signal s > 0
                then fillna 0 (shift (nat (lag_signal s)) (map Some (held s ps)))
                else held s ps)"
  by (simp add: signals_def Let_def)

lemma set_signals:
  assumes "signals s ps = Inr sig"
  shows "set sig \<subseteq> insert 0 (set (raw s ps))"
proof -
  have "sig = held s ps \<or> sig = fillna 0 (shift (nat (lag_signal s)) (map Some (held s ps)))"
    using assms by (auto simp add: signals_def Let_def split: if_splits)
  then show ?thesis using set_held [of s ps] set_lagged [of "nat (lag_signal s)" "held s ps"]
    by blast
qed

lemmas strategy_defs = signals_def held_def raw_def raw_at_def up_band_def dn_band_def vol_def
  prev_close_def rolling_std_def window_std_def sample_std_def pct_change_def shift_def
  fillna_def ffill_def replace_zero_def nan2_def gt_nan_def lt_nan_def

text \<open>
  Two runs of \<open>signals\<close> by hand. Prices 1, 1, 1, 2, 2 with a window of 2: the jump to 2
  meets a volatility of 0, so the band is the previous close and the signal fires; it is
  held on the last bar, where the band has widened. Prices 2, 2, 2, 1, 1 without
  \<open>long_only\<close> and without \<open>hold\<close>: the drop fires -1 on one bar only.
\<close>

lemma signals_example_long:
  "signals \<lparr>lookback = 2, k = 3 / 2, hold = True, lag_signal = 0, long_only = True\<rparr>
     [1, 1, 1, 2, 2] = Inr [0, 0, 0, 1, 1]"
  by (simp add: strategy_defs Let_def upt_conv_Cons)

lemma signals_example_short:
  "signals \<lparr>lookback = 2, k = 3 / 2, hold = False, lag_signal = 0, long_only = False\<rparr>
     [2, 2, 2, 1, 1] = Inr [0, 0, 0, - 1, 0]"
  by (simp add: strategy_defs Let_def upt_conv_Cons)

text \<open>
  C10. Signal range: whenever \<open>signals\<close> returns (it raises only for a negative lookback),
  the sequence has the length of the prices and every value is -1, 0 or 1; with
  \<open>long_only\<close> every value is 0 or 1. Nothing is assumed on \<open>hold\<close>, \<open>lag_signal\<close> or \<open>k\<close>.
\<close>

theorem signals_range:
  "case signals s prices of
     Inl e \<Rightarrow> lookback s < 0
   | Inr sig \<Rightarrow> length sig = length prices \<and> set sig \<subseteq> {- 1, 0, 1} \<and>
                (long_only s \<longrightarrow> set sig \<subseteq> {0, 1})"
proof (cases "signals s prices")
  case (Inl e)
  then show ?thesis by (simp add: signals_def Let_def split: if_splits)
next
  case (Inr sig)
  have len: "length sig = length prices"
    using Inr by (auto simp add: signals_def Let_def split: if_splits)
  have a: "set sig \<subseteq> {- 1, 0, 1}"
    using set_signals [OF Inr] set_raw [of s prices] by auto
  have b: "long_only s \<Longrightarrow> set sig \<subseteq> {0, 1}"
    using set_signals [OF Inr] set_raw_long_only [of s prices] by auto
  show ?thesis using Inr len a b by simp
qed

theorem signals_range_witness:
  "\<exists>sig. signals \<lparr>lookback = 2, k = 3 / 2, hold = True, lag_signal = 1, long_only = True\<rparr>
            [1, 1, 1, 2, 2] = Inr sig \<and> length sig = 5 \<and> set sig \<subseteq> {0, 1}"
  using signals_range
    [of "\<lparr>lookback = 2, k = 3 / 2, hold = True, lag_signal = 1, long_only = True\<rparr>"
        "[1, 1, 1, 2, 2]"]
  by (cases "signals \<lparr>lookback = 2, k = 3 / 2, hold = True, lag_signal = 1, long_only = True\<rparr>
               [1, 1, 1, 2, 2]") simp_all

lemma held_lag_irrelevant: "held (s\<lparr>lag_signal := L\<rparr>) ps = held s ps"
  by (simp add: held_def raw_def up_band_def dn_band_def vol_def)

text \<open>
  C5. Lag shift: for a fixed lookback, k, hold and long_only (lookback not negative, so
  that \<open>signals\<close> returns), the sequence with \<open>lag_signal = L > 0\<close> is the sequence with
  \<open>lag_signal = 0\<close> moved forward by \<open>L\<close> positions, with 0 in the first \<open>L\<close> positions.
\<close>

theorem lag_shift:
  assumes "0 < L" and "0 \<le> lookback s"
  shows "\<exists>sigL sig0.
           signals (s\<lparr>lag_signal := L\<rparr>) prices = Inr sigL \<and>
           signals (s\<lparr>lag_signal := 0\<rparr>) prices = Inr sig0 \<and>
           length sigL = length prices \<and> length sig0 = length prices \<and>
           (\<forall>t < length prices. sigL ! t = (if int t < L then 0 else sig0 ! (t - nat L)))"
proof -
  let ?h = "held s prices"
  have 0: "signals (s\<lparr>lag_signal := 0\<rparr>) prices = Inr ?h"
    using assms by (simp add: signals_Inr held_lag_irrelevant)
  have L: "signals (s\<lparr>lag_signal := L\<rparr>) prices = Inr (fillna 0 (shift (nat L) (map Some ?h)))"
    using assms by (simp add: signals_Inr held_lag_irrelevant)
  have "fillna 0 (shift (nat L) (map Some ?h)) ! t = (if int t < L then 0 else ?h ! (t - nat L))"
    if "t < length prices" for t
    using that assms by (auto simp add: fillna_def nth_shift)
  then show ?thesis using 0 L by simp
qed

theorem lag_shift_witness:
  "\<exists>sigL. signals \<lparr>lookback = 2, k = 3 / 2, hold = True, lag_signal = 1, long_only = True\<rparr>
             [1, 1, 1, 2, 2] = Inr sigL \<and>
          length sigL = 5 \<and> sigL ! 0 = 0 \<and> sigL ! 3 = 0 \<and> sigL ! 4 = 1"
  using lag_shift
    [of 1 "\<lparr>lookback = 2, k = 3 / 2, hold = True, lag_signal = 0, long_only = True\<rparr>"
        "[1, 1, 1, 2, 2]"]
    signals_example_long
  by auto

section \<open>The engine's loop\<close>

lemma in_set_items: "(dt, px) \<in> set (items prices) \<Longrightarrow> dt < length prices \<and> px \<in> set prices"
  by (auto simp add: items_def in_set_zip)

lemma length_items [simp]: "length (items prices) = length prices"
  by (simp add: items_def)

lemma map_fst_items [simp]: "map fst (items prices) = [0..<length prices]"
  by (simp add: items_def)

lemma clip_range: "0 \<le> clip 0 1 x \<and> clip 0 1 x \<le> 1"
  by (simp add: clip_def)

lemma length_normalized [simp]: "length (normalized sig) = length sig"
  by (simp add: normalized_def)

lemma nth_normalized:
  "t < length sig \<Longrightarrow>
   normalized sig ! t = clip 0 1 (case sig ! t of None \<Rightarrow> 0 | Some v \<Rightarrow> v)"
  by (simp add: normalized_def fillna_def)

lemma step_error:
  assumes "fst (step sig (dt, px) st) = Some e"
  shows "length sig \<le> dt \<or> px \<le> 0 \<or> e = OverflowError"
proof (rule ccontr)
  assume n: "\<not> ?thesis"
  then have dt: "dt < length sig" and px: "0 < px" and e: "e \<noteq> OverflowError" by auto
  have fd: "e' = OverflowError" if "int_floordiv (cash (bro st)) px = Inl e'" for e'
    using int_floordiv_Inl [OF that] px by auto
  from assms dt px have "e = OverflowError"
    by (auto simp add: step_def Let_def market_order_buy market_order_sell
        split: if_splits sum.splits dest: fd)
  with e show False by simp
qed

lemma step_None:
  assumes "fst (step sig (dt, px) st) = None"
  shows "dt < length sig \<and> prev_sig (snd (step sig (dt, px) st)) = sig ! dt \<and>
         equity (snd (step sig (dt, px) st)) =
           equity st @ [(dt, total_value (bro (snd (step sig (dt, px) st))) px)]"
  using assms
  by (auto simp add: step_def Let_def split: if_splits prod.splits option.splits)

lemma run_loop_error:
  assumes "fst (run_loop sig obs st) = Some e"
  shows "(\<exists>(dt, px) \<in> set obs. length sig \<le> dt \<or> px \<le> 0) \<or> e = OverflowError"
  using assms
proof (induction obs arbitrary: st)
  case Nil
  then show ?case by simp
next
  case (Cons ob obs)
  obtain dt px where ob: "ob = (dt, px)" by (cases ob)
  obtain r st' where s: "step sig (dt, px) st = (r, st')" by (cases "step sig (dt, px) st")
  show ?case
  proof (cases r)
    case None
    with Cons.prems ob s have "fst (run_loop sig obs st') = Some e" by simp
    from Cons.IH [OF this] show ?thesis by auto
  next
    case (Some e')
    with Cons.prems ob s have "e' = e" by simp
    with Some s have "fst (step sig (dt, px) st) = Some e" by simp
    from step_error [OF this] show ?thesis using ob by auto
  qed
qed

lemma run_loop_None:
  assumes "fst (run_loop sig obs st) = None"
  shows "map fst (equity (snd (run_loop sig obs st))) = map fst (equity st) @ map fst obs \<and>
         (\<forall>dt \<in> fst ` set obs. dt < length sig)"
  using assms
proof (induction obs arbitrary: st)
  case Nil
  then show ?case by simp
next
  case (Cons ob obs)
  obtain dt px where ob: "ob = (dt, px)" by (cases ob)
  obtain e st' where s: "step sig (dt, px) st = (e, st')" by (cases "step sig (dt, px) st")
  from Cons.prems ob s have e: "e = None" by (cases e) auto
  from step_None [of sig dt px st] s e
  have dt: "dt < length sig" and eq: "map fst (equity st') = map fst (equity st) @ [dt]"
    by auto
  from Cons.prems ob s e have "fst (run_loop sig obs st') = None" by simp
  from Cons.IH [OF this] show ?case using ob s e eq dt by simp
qed

lemma market_order_position:
  assumes "0 \<le> position b" and "sd = ''buy'' \<or> (sd = ''sell'' \<and> q = position b)"
  shows "0 \<le> position (snd (market_order b sd q px))"
  using assms
  by (auto simp add: market_order_def lower_buy lower_sell Let_def)

lemma step_bro:
  "bro (snd (step sig (dt, px) st)) =
     (if length sig \<le> dt then bro st
      else if prev_sig st \<le> 0 \<and> 0 < sig ! dt then
        (case int_floordiv (cash (bro st)) px of
           Inl e \<Rightarrow> bro st
         | Inr q \<Rightarrow> if 0 < q then snd (market_order (bro st) ''buy'' q px) else bro st)
      else if 0 < prev_sig st \<and> sig ! dt \<le> 0 then
        (if 0 < position (bro st)
         then snd (market_order (bro st) ''sell'' (position (bro st)) px) else bro st)
      else bro st)"
  by (simp add: step_def Let_def split: prod.splits option.splits sum.splits)

lemma step_position:
  assumes "0 \<le> position (bro st)"
  shows "0 \<le> position (bro (snd (step sig ob st)))"
proof -
  obtain dt px where ob: "ob = (dt, px)" by (cases ob)
  have b: "0 \<le> position (snd (market_order (bro st) ''buy'' q px))" for q
    using market_order_position [OF assms] by simp
  have c: "0 \<le> position (snd (market_order (bro st) ''sell'' (position (bro st)) px))"
    using market_order_position [OF assms] by simp
  show ?thesis
    unfolding ob step_bro using assms b c by (simp split: sum.splits)
qed

lemma run_loop_position:
  assumes "0 \<le> position (bro st)"
  shows "0 \<le> position (bro (snd (run_loop sig obs st)))"
  using assms
proof (induction obs arbitrary: st)
  case Nil
  then show ?case by simp
next
  case (Cons ob obs)
  obtain e st' where s: "step sig ob st = (e, st')" by (cases "step sig ob st")
  with step_position [OF Cons.prems, of sig ob] have inv: "0 \<le> position (bro st')" by simp
  show ?case
  proof (cases e)
    case None
    then show ?thesis using Cons.IH [OF inv] s by simp
  next
    case (Some err)
    then show ?thesis using inv s by simp
  qed
qed

lemma floor_quantity_affordable:
  fixes c px :: real
  assumes "0 < px"
  shows "of_int \<lfloor>c / px\<rfloor> * px \<le> c"
proof -
  have "of_int \<lfloor>c / px\<rfloor> * px \<le> c / px * px"
    using assms by (intro mult_right_mono) simp_all
  also have "\<dots> = c" using assms by simp
  finally show ?thesis .
qed

lemma step_cash:
  assumes "0 \<le> cash (bro st)" and "0 \<le> position (bro st)"
    and "dt < length sig \<Longrightarrow> prev_sig st \<le> 0 \<Longrightarrow> 0 < sig ! dt \<Longrightarrow>
         min_normal \<le> px \<and> cash (bro st) / px < 2 ^ 50"
  shows "0 \<le> cash (bro (snd (step sig (dt, px) st)))"
proof (cases "dt < length sig \<and> prev_sig st \<le> 0 \<and> 0 < sig ! dt")
  case True
  with assms(3) have mn: "min_normal \<le> px" and q: "cash (bro st) / px < 2 ^ 50" by simp_all
  from mn min_normal_pos have px: "0 < px" by linarith
  have fd: "int_floordiv (cash (bro st)) px = Inr \<lfloor>cash (bro st) / px\<rfloor>"
    using int_floordiv_exact [OF assms(1) mn q] .
  from True px have se: "step sig (dt, px) st =
      (if 0 < \<lfloor>cash (bro st) / px\<rfloor>
       then (None, \<lparr>bro = snd (market_order (bro st) ''buy'' \<lfloor>cash (bro st) / px\<rfloor> px),
              prev_sig = sig ! dt,
              equity = equity st @
                [(dt, total_value (snd (market_order (bro st) ''buy''
                        \<lfloor>cash (bro st) / px\<rfloor> px)) px)]\<rparr>)
       else (None, \<lparr>bro = bro st, prev_sig = sig ! dt,
              equity = equity st @ [(dt, total_value (bro st) px)]\<rparr>))"
    using step_entry [of dt sig st px] by (simp add: fd)
  show ?thesis
    using assms(1) px floor_quantity_affordable [OF px, of "cash (bro st)"]
    by (simp add: se market_order_buy)
next
  case False
  have sell: "0 \<le> cash (snd (market_order (bro st) ''sell'' (position (bro st)) px))"
    using assms(1,2) by (simp add: market_order_def lower_sell Let_def)
  from False assms(1) sell show ?thesis
    unfolding step_bro by auto
qed

lemma run_loop_append:
  "run_loop sig (xs @ ys) st =
     (case run_loop sig xs st of
        (Some e, st') \<Rightarrow> (Some e, st')
      | (None, st') \<Rightarrow> run_loop sig ys st')"
  by (induction xs arbitrary: st) (auto split: prod.splits option.splits)

lemma run_with_Inr:
  assumes "fst (run_with raw_sig b prices) = Inr res"
  shows "r_signals res = normalized raw_sig \<and>
         map fst (r_equity res) = [0..<length prices] \<and>
         length prices \<le> length raw_sig \<and>
         r_trades res = trade_log (snd (run_with raw_sig b prices))"
proof -
  let ?st0 = "\<lparr>bro = b, prev_sig = 0, equity = []\<rparr>"
  obtain e st where r: "run_loop (normalized raw_sig) (items prices) ?st0 = (e, st)"
    by (cases "run_loop (normalized raw_sig) (items prices) ?st0")
  with assms have e: "e = None" by (cases e) (auto simp add: run_with_def Let_def)
  from run_loop_None [of "normalized raw_sig" "items prices" ?st0] r e
  have eq: "map fst (equity st) = [0..<length prices]"
    and ix: "\<forall>dt \<in> set [0..<length prices]. dt < length raw_sig"
    by (auto simp flip: set_map)
  from ix have "length prices \<le> length raw_sig"
    by (cases "length prices") auto
  then show ?thesis using assms r e eq by (auto simp add: run_with_def Let_def)
qed

lemma run_with_Inl:
  assumes "fst (run_with raw_sig b prices) = Inl e"
  shows "length raw_sig < length prices \<or> (\<exists>p \<in> set prices. p \<le> 0) \<or> e = OverflowError"
proof -
  from assms have
    "fst (run_loop (normalized raw_sig) (items prices) \<lparr>bro = b, prev_sig = 0, equity = []\<rparr>) =
       Some e"
    by (auto simp add: run_with_def Let_def split: prod.splits option.splits)
  from run_loop_error [OF this] show ?thesis
    by (auto dest!: in_set_items)
qed

lemma run_Inr:
  assumes "fst (run s b prices) = Inr res"
  shows "\<exists>sig. signals s prices = Inr sig \<and> r_signals res = map (clip 0 1) sig \<and>
           map fst (r_equity res) = [0..<length prices]"
proof -
  from assms obtain sig where sig: "signals s prices = Inr sig"
    and rw: "fst (run_with (map Some sig) b prices) = Inr res"
    by (auto simp add: run_def split: sum.splits)
  from run_with_Inr [OF rw] sig show ?thesis
    by (simp add: normalized_def fillna_def comp_def)
qed

lemma run_Inl:
  assumes "fst (run s b prices) = Inl e"
  shows "lookback s < 0 \<or> (\<exists>p \<in> set prices. p \<le> 0) \<or> e = OverflowError"
proof (cases "signals s prices")
  case (Inl e')
  then show ?thesis by (simp add: signals_def Let_def split: if_splits)
next
  case (Inr sig)
  then have len: "length sig = length prices"
    by (auto simp add: signals_def Let_def split: if_splits)
  from assms Inr have "fst (run_with (map Some sig) b prices) = Inl e"
    by (simp add: run_def)
  from run_with_Inl [OF this] len show ?thesis by simp
qed

text \<open>
  Inside the range where the float floor division is exact, a run is evaluated by
  rewriting.
\<close>

lemma int_floordiv_small:
  "0 \<le> vx \<Longrightarrow> 1 \<le> wx \<Longrightarrow> vx / wx < 2 ^ 50 \<Longrightarrow> int_floordiv vx wx = Inr \<lfloor>vx / wx\<rfloor>"
  by (rule int_floordiv_exact) (simp_all add: min_normal_le)

lemmas run_defs = run_with_def normalized_def fillna_def clip_def items_def step_def
  total_value_def Broker_def

lemma run_with_example:
  "run_with [Some 1, Some (1 / 2), None, Some (- 1), Some 2] (Broker 1000)
     [30, 31, 32, 33, 34] =
   (Inr \<lparr>r_equity = [(0, 1000), (1, 1033), (2, 1066), (3, 1066), (4, 1066)],
         r_signals = [1, 1 / 2, 0, 0, 1],
         r_trades =
           [\<lparr>side = ''buy'', qty = 33, price = 30, cash_after = 10, position_after = 33\<rparr>,
            \<lparr>side = ''sell'', qty = 33, price = 32, cash_after = 1066, position_after = 0\<rparr>,
            \<lparr>side = ''buy'', qty = 31, price = 34, cash_after = 12, position_after = 31\<rparr>]\<rparr>,
    \<lparr>cash = 12, position = 31,
      trade_log =
        [\<lparr>side = ''buy'', qty = 33, price = 30, cash_after = 10, position_after = 33\<rparr>,
         \<lparr>side = ''sell'', qty = 33, price = 32, cash_after = 1066, position_after = 0\<rparr>,
         \<lparr>side = ''buy'', qty = 31, price = 34, cash_after = 12, position_after = 31\<rparr>]\<rparr>)"
  by (simp add: run_defs Let_def upt_conv_Cons int_floordiv_small market_order_buy
      market_order_sell)

lemma run_with_example_returns:
  "\<exists>res. fst (run_with [Some 1, Some (1 / 2), None, Some (- 1), Some 2] (Broker 1000)
                 [30, 31, 32, 33, 34]) = Inr res"
  by (simp add: run_with_example)

text \<open>
  C4. Clipping invariant: whatever series the generator hands over (NaN and values
  outside [0, 1] included), a run that returns gives back that series with NaN read as 0
  and every value clipped, so every exposure lies in [0, 1]; the same holds for the
  volatility-breakout generator under every configuration. The run raises only when
  the generator's series is shorter than the prices, a price is not positive, the float
  quotient of an entry is infinite (\<open>OverflowError\<close>) or, with the volatility-breakout
  generator, when the lookback is negative.
\<close>

theorem clipping_invariant:
  "(case fst (run_with raw_sig b prices) of
      Inl e \<Rightarrow> length raw_sig < length prices \<or> (\<exists>p \<in> set prices. p \<le> 0) \<or>
               e = OverflowError
    | Inr res \<Rightarrow>
        r_signals res = map (\<lambda>x. clip 0 1 (case x of None \<Rightarrow> 0 | Some v \<Rightarrow> v)) raw_sig \<and>
        (\<forall>x \<in> set (r_signals res). 0 \<le> x \<and> x \<le> 1)) \<and>
   (case fst (run s b prices) of
      Inl e \<Rightarrow> lookback s < 0 \<or> (\<exists>p \<in> set prices. p \<le> 0) \<or> e = OverflowError
    | Inr res \<Rightarrow> \<forall>x \<in> set (r_signals res). 0 \<le> x \<and> x \<le> 1)"
proof -
  have 1: "length raw_sig < length prices \<or> (\<exists>p \<in> set prices. p \<le> 0) \<or> e = OverflowError"
    if "fst (run_with raw_sig b prices) = Inl e" for e
    using run_with_Inl [OF that] .
  have 2: "r_signals res = map (\<lambda>x. clip 0 1 (case x of None \<Rightarrow> 0 | Some v \<Rightarrow> v)) raw_sig \<and>
        (\<forall>x \<in> set (r_signals res). 0 \<le> x \<and> x \<le> 1)"
    if "fst (run_with raw_sig b prices) = Inr res" for res
    using run_with_Inr [OF that] clip_range
    by (auto simp add: normalized_def fillna_def)
  have 3: "lookback s < 0 \<or> (\<exists>p \<in> set prices. p \<le> 0) \<or> e = OverflowError"
    if "fst (run s b prices) = Inl e" for e
    using run_Inl [OF that] .
  have 4: "\<forall>x \<in> set (r_signals res). 0 \<le> x \<and> x \<le> 1" if "fst (run s b prices) = Inr res" for res
    using run_Inr [OF that] clip_range by auto
  show ?thesis using 1 2 3 4 by (simp split: sum.splits)
qed

theorem clipping_invariant_witness:
  "\<exists>res. fst (run_with [Some 1, Some (1 / 2), None, Some (- 1), Some 2] (Broker 1000)
                 [30, 31, 32, 33, 34]) = Inr res \<and>
         r_signals res = [1, 1 / 2, 0, 0, 1]"
proof -
  from run_with_example_returns obtain res where
    r: "fst (run_with [Some 1, Some (1 / 2), None, Some (- 1), Some 2] (Broker 1000)
              [30, 31, 32, 33, 34]) = Inr res" ..
  with clipping_invariant
    [where raw_sig = "[Some 1, Some (1 / 2), None, Some (- 1), Some 2]"
       and b = "Broker 1000" and prices = "[30, 31, 32, 33, 34]"]
  have "r_signals res = [1, 1 / 2, 0, 0, 1]" by (simp add: clip_def)
  with r show ?thesis by blast
qed

lemma signals_length: "signals s ps = Inr sig \<Longrightarrow> length sig = length ps"
  by (auto simp add: signals_def Let_def split: if_splits)

lemma run_empty:
  "0 \<le> lookback s \<Longrightarrow>
   run s b [] = (Inr \<lparr>r_equity = [], r_signals = [], r_trades = trade_log b\<rparr>, b)"
  by (simp add: run_def run_with_def strategy_defs normalized_def items_def Let_def)

text \<open>
  A run of the engine with the strategy: prices 1, 1, 1, 2, 2, a window of 2 and a lag of
  one bar. The signal fires on the last bar and the whole cash buys 500 units at 2.
\<close>

lemma run_example:
  "run \<lparr>lookback = 2, k = 3 / 2, hold = True, lag_signal = 1, long_only = True\<rparr>
       (Broker 1000) [1, 1, 1, 2, 2] =
   (Inr \<lparr>r_equity = [(0, 1000), (1, 1000), (2, 1000), (3, 1000), (4, 1000)],
         r_signals = [0, 0, 0, 0, 1],
         r_trades =
           [\<lparr>side = ''buy'', qty = 500, price = 2, cash_after = 0, position_after = 500\<rparr>]\<rparr>,
    \<lparr>cash = 0, position = 500,
      trade_log =
        [\<lparr>side = ''buy'', qty = 500, price = 2, cash_after = 0, position_after = 500\<rparr>]\<rparr>)"
proof -
  have "signals \<lparr>lookback = 2, k = 3 / 2, hold = True, lag_signal = 1, long_only = True\<rparr>
          [1, 1, 1, 2, 2] = Inr [0, 0, 0, 0, 1]"
    by (simp add: strategy_defs Let_def upt_conv_Cons)
  then show ?thesis
    by (simp add: run_def run_defs Let_def upt_conv_Cons int_floordiv_small market_order_buy)
qed

lemma run_example_returns:
  "\<exists>res. fst (run \<lparr>lookback = 2, k = 3 / 2, hold = True, lag_signal = 1, long_only = True\<rparr>
                 (Broker 1000) [1, 1, 1, 2, 2]) = Inr res"
  by (simp add: run_example)

text \<open>
  C7. Length invariant: a run that returns has an equity curve and an exposure curve of
  the length of the prices, and it raises only for a negative lookback, a price that is
  not positive or an infinite float quotient at an entry (\<open>OverflowError\<close>). On the empty
  price list (lookback not negative) both curves are empty, the trades are the ledger's
  history, empty for a new ledger, and the ledger is as before.
\<close>

theorem length_invariant:
  "(case fst (run s b prices) of
      Inl e \<Rightarrow> lookback s < 0 \<or> (\<exists>p \<in> set prices. p \<le> 0) \<or> e = OverflowError
    | Inr res \<Rightarrow> length (r_equity res) = length prices \<and>
                length (r_signals res) = length prices) \<and>
   (0 \<le> lookback s \<longrightarrow>
      run s b [] = (Inr \<lparr>r_equity = [], r_signals = [], r_trades = trade_log b\<rparr>, b) \<and>
      run s (Broker c) [] = (Inr \<lparr>r_equity = [], r_signals = [], r_trades = []\<rparr>, Broker c))"
proof -
  have 1: "lookback s < 0 \<or> (\<exists>p \<in> set prices. p \<le> 0) \<or> e = OverflowError"
    if "fst (run s b prices) = Inl e" for e
    using run_Inl [OF that] .
  have 2: "length (r_equity res) = length prices \<and> length (r_signals res) = length prices"
    if "fst (run s b prices) = Inr res" for res
  proof -
    from run_Inr [OF that] obtain sig where sig: "signals s prices = Inr sig"
      and rs: "r_signals res = map (clip 0 1) sig"
      and eq: "map fst (r_equity res) = [0..<length prices]" by blast
    from eq have "length (map fst (r_equity res)) = length [0..<length prices]" by simp
    then show ?thesis using rs signals_length [OF sig] by simp
  qed
  have 3: "run s (Broker c) [] = (Inr \<lparr>r_equity = [], r_signals = [], r_trades = []\<rparr>, Broker c)"
    if "0 \<le> lookback s"
    using run_empty [OF that, of "Broker c"] by (simp add: Broker_def)
  show ?thesis using 1 2 3 run_empty [of s b] by (simp split: sum.splits)
qed

theorem length_invariant_witness:
  "\<exists>res. fst (run \<lparr>lookback = 2, k = 3 / 2, hold = True, lag_signal = 1, long_only = True\<rparr>
                 (Broker 1000) [1, 1, 1, 2, 2]) = Inr res \<and>
         length (r_equity res) = 5 \<and> length (r_signals res) = 5"
proof -
  from run_example_returns obtain res where
    r: "fst (run \<lparr>lookback = 2, k = 3 / 2, hold = True, lag_signal = 1, long_only = True\<rparr>
              (Broker 1000) [1, 1, 1, 2, 2]) = Inr res" ..
  with length_invariant
    [where s = "\<lparr>lookback = 2, k = 3 / 2, hold = True, lag_signal = 1, long_only = True\<rparr>"
       and b = "Broker 1000" and prices = "[1, 1, 1, 2, 2]"]
  have "length (r_equity res) = 5 \<and> length (r_signals res) = 5" by simp
  with r show ?thesis by blast
qed

subsection \<open>Solvency\<close>

lemma state_after_0 [simp]:
  "state_after sig prices b 0 = \<lparr>bro = b, prev_sig = 0, equity = []\<rparr>"
  by (simp add: state_after_def)

lemma items_nth: "n < length prices \<Longrightarrow> items prices ! n = (n, prices ! n)"
  by (simp add: items_def)

lemma state_after_Suc:
  assumes "n < length prices"
  shows "state_after sig prices b (Suc n) =
           (if fst (run_loop sig (take n (items prices)) \<lparr>bro = b, prev_sig = 0, equity = []\<rparr>)
               = None
            then snd (step sig (n, prices ! n) (state_after sig prices b n))
            else state_after sig prices b n)"
proof -
  have "take (Suc n) (items prices) = take n (items prices) @ [(n, prices ! n)]"
    using assms by (simp add: take_Suc_conv_app_nth items_nth)
  then show ?thesis
    by (simp add: state_after_def run_loop_append split: prod.splits option.splits)
qed

lemma state_after_beyond:
  "length prices \<le> n \<Longrightarrow> state_after sig prices b (Suc n) = state_after sig prices b n"
  by (simp add: state_after_def)

lemma state_after_position:
  "0 \<le> position b \<Longrightarrow> 0 \<le> position (bro (state_after sig prices b n))"
  unfolding state_after_def by (rule run_loop_position) simp

lemma state_after_cash:
  assumes "0 \<le> cash b" and "0 \<le> position b"
    and "\<forall>m<n. m < length prices \<longrightarrow> m < length sig \<longrightarrow>
           prev_sig (state_after sig prices b m) \<le> 0 \<longrightarrow> 0 < sig ! m \<longrightarrow>
           min_normal \<le> prices ! m \<and>
           cash (bro (state_after sig prices b m)) / prices ! m < 2 ^ 50"
  shows "0 \<le> cash (bro (state_after sig prices b n))"
  using assms(3)
proof (induction n)
  case 0
  then show ?case using assms(1) by simp
next
  case (Suc n)
  from Suc.prems have "\<forall>m<n. m < length prices \<longrightarrow> m < length sig \<longrightarrow>
           prev_sig (state_after sig prices b m) \<le> 0 \<longrightarrow> 0 < sig ! m \<longrightarrow>
           min_normal \<le> prices ! m \<and>
           cash (bro (state_after sig prices b m)) / prices ! m < 2 ^ 50"
    by simp
  from Suc.IH [OF this] have c: "0 \<le> cash (bro (state_after sig prices b n))" .
  show ?case
  proof (cases "n < length prices")
    case False
    then show ?thesis using c by (simp add: state_after_beyond)
  next
    case True
    have p: "0 \<le> position (bro (state_after sig prices b n))"
      using assms(2) by (rule state_after_position)
    have g: "min_normal \<le> prices ! n \<and>
             cash (bro (state_after sig prices b n)) / prices ! n < 2 ^ 50"
      if "n < length sig" and "prev_sig (state_after sig prices b n) \<le> 0" and "0 < sig ! n"
      using Suc.prems True that by simp
    have "0 \<le> cash (bro (snd (step sig (n, prices ! n) (state_after sig prices b n))))"
      using c p g by (rule step_cash)
    then show ?thesis using c True by (simp add: state_after_Suc)
  qed
qed

lemma run_with_ledger:
  "snd (run_with raw_sig b prices) =
     bro (state_after (normalized raw_sig) prices b (length prices))"
  by (simp add: run_with_def state_after_def Let_def split: prod.splits option.splits)

text \<open>
  C9, as it was claimed, has cash and position non-negative after every step. A ledger
  with cash \<open>7e15\<close> that enters at the price \<open>0.3\<close> buys 23333333333333336 units, which
  cost more than the cash: after this one step the cash is negative.
\<close>

theorem engine_solvency_counterexample:
  "0 \<le> cash (Broker 7000000000000000) \<and> position (Broker 7000000000000000) = 0 \<and>
   cash (snd (run_with [Some 1] (Broker 7000000000000000) [float_03])) < 0"
proof -
  have p: "0 < float_03" by (simp add: float_03_def)
  have "step [1] (0, float_03) \<lparr>bro = Broker 7000000000000000, prev_sig = 0, equity = []\<rparr> =
          (None, \<lparr>bro = snd (market_order (Broker 7000000000000000) ''buy''
                              23333333333333336 float_03),
                  prev_sig = 1,
                  equity = [(0, total_value (snd (market_order (Broker 7000000000000000) ''buy''
                              23333333333333336 float_03)) float_03)]\<rparr>)"
    using step_entry [of 0 "[1]" "\<lparr>bro = Broker 7000000000000000, prev_sig = 0, equity = []\<rparr>"
        float_03] p
    by (simp add: Broker_def int_floordiv_7e15)
  then have "snd (run_with [Some 1] (Broker 7000000000000000) [float_03]) =
             snd (market_order (Broker 7000000000000000) ''buy'' 23333333333333336 float_03)"
    by (simp add: run_with_def normalized_def fillna_def clip_def items_def Let_def)
  moreover have "cash (snd (market_order (Broker 7000000000000000) ''buy''
                   23333333333333336 float_03)) < 0"
    using p by (simp add: market_order_buy Broker_def) (simp add: float_03_def)
  ultimately show ?thesis by (simp add: Broker_def)
qed

text \<open>
  C9, as the code has it. Started on a ledger with non-negative cash and position 0, the
  position is non-negative after every number of steps, and so it is in the ledger that
  \<open>run\<close> leaves behind. The cash is non-negative after \<open>n\<close> steps provided that every
  entry transition among them took place at a price of at least \<open>2^-1022\<close> with a
  quotient cash / price below \<open>2^50\<close>, the range in which the float floor division is
  the exact floor.
\<close>

theorem engine_solvency:
  assumes "0 \<le> cash b" and "position b = 0"
  shows "(\<forall>n. 0 \<le> position (bro (state_after sig prices b n))) \<and>
         (\<forall>n. (\<forall>m<n. m < length prices \<longrightarrow> m < length sig \<longrightarrow>
                  prev_sig (state_after sig prices b m) \<le> 0 \<longrightarrow> 0 < sig ! m \<longrightarrow>
                  min_normal \<le> prices ! m \<and>
                  cash (bro (state_after sig prices b m)) / prices ! m < 2 ^ 50) \<longrightarrow>
              0 \<le> cash (bro (state_after sig prices b n))) \<and>
         snd (run_with raw_sig b prices) =
           bro (state_after (normalized raw_sig) prices b (length prices)) \<and>
         0 \<le> position (snd (run_with raw_sig b prices)) \<and>
         0 \<le> position (snd (run s b prices))"
proof -
  have pb: "0 \<le> position b" using assms(2) by simp
  have 1: "0 \<le> position (bro (state_after sg prices b n))" for sg n
    using pb by (rule state_after_position)
  have 2: "0 \<le> cash (bro (state_after sig prices b n))"
    if "\<forall>m<n. m < length prices \<longrightarrow> m < length sig \<longrightarrow>
          prev_sig (state_after sig prices b m) \<le> 0 \<longrightarrow> 0 < sig ! m \<longrightarrow>
          min_normal \<le> prices ! m \<and>
          cash (bro (state_after sig prices b m)) / prices ! m < 2 ^ 50" for n
    using assms(1) pb that by (rule state_after_cash)
  have 3: "0 \<le> position (snd (run_with r b prices))" for r
    using 1 by (simp add: run_with_ledger)
  have 4: "0 \<le> position (snd (run s b prices))"
    using 3 pb by (simp add: run_def split: sum.splits)
  show ?thesis using 1 2 3 4 run_with_ledger by blast
qed

theorem engine_solvency_witness:
  "0 \<le> position (bro (state_after [1] [30] (Broker 1000) 1)) \<and>
   0 \<le> cash (bro (state_after [1] [30] (Broker 1000) 1))"
  using engine_solvency [where b = "Broker 1000" and sig = "[1]" and prices = "[30]"]
  by (simp add: Broker_def min_normal_le)

section \<open>Constant prices\<close>

lemma pct_from_const:
  "pct_from c (replicate n c) = replicate n (if c = 0 then None else Some 0)"
  by (induction n) auto

lemma set_pct_change_const: "set (pct_change (replicate n c)) \<subseteq> {None, Some 0}"
  by (cases n) (auto simp add: pct_change_def pct_from_const)

lemma sample_std_zeros:
  assumes "\<forall>x \<in> set xs. x = 0"
  shows "sample_std xs = 0"
proof -
  from assms have xs: "xs = replicate (length xs) 0"
    by (simp add: replicate_length_same)
  have "sum_list (replicate m (0::real)) = 0" for m by (induction m) auto
  then have "sample_std (replicate m 0) = 0" for m
    by (simp add: sample_std_def Let_def sum_list_replicate)
  with xs show ?thesis by metis
qed

lemma window_std_zero:
  assumes "set xs \<subseteq> {None, Some 0}"
  shows "window_std w xs i \<in> {None, Some 0}"
proof -
  let ?win = "take w (drop (i + 1 - w) xs)"
  have sub: "set ?win \<subseteq> {None, Some 0}"
    using assms by (meson in_set_dropD in_set_takeD subset_iff)
  have "sample_std (map the ?win) = 0" if "None \<notin> set ?win"
  proof (rule sample_std_zeros)
    show "\<forall>x \<in> set (map the ?win). x = 0"
      using sub that by auto
  qed
  then show ?thesis by (auto simp add: window_std_def Let_def)
qed

lemma set_shift: "set (shift n xs) \<subseteq> insert None (set xs)"
  by (auto simp add: shift_def dest: in_set_takeD)

lemma set_vol_const: "set (vol s (replicate n c)) \<subseteq> {None, Some 0}"
proof -
  let ?r = "rolling_std (nat (lookback s)) (pct_change (replicate n c))"
  have w: "window_std (nat (lookback s)) (pct_change (replicate n c)) i \<in> {None, Some 0}" for i
    by (rule window_std_zero [OF set_pct_change_const])
  have "set ?r \<subseteq> {None, Some 0}"
  proof
    fix x assume "x \<in> set ?r"
    then obtain i where "x = window_std (nat (lookback s)) (pct_change (replicate n c)) i"
      by (auto simp add: rolling_std_def)
    then show "x \<in> {None, Some 0}" using w [of i] by simp
  qed
  moreover have "set (shift 1 ?r) \<subseteq> insert None (set ?r)" by (rule set_shift)
  ultimately show ?thesis unfolding vol_def by blast
qed

lemma raw_nth:
  "t < length ps \<Longrightarrow>
   raw s ps ! t = raw_at (long_only s) (ps ! t)
     (nan2 (\<lambda>pc v. pc * (1 + k s * v)) (prev_close ps ! t) (vol s ps ! t))
     (nan2 (\<lambda>pc v. pc * (1 - k s * v)) (prev_close ps ! t) (vol s ps ! t))"
  by (simp add: raw_def up_band_def dn_band_def)

lemma raw_const: "raw s (replicate n c) = replicate n 0"
proof (rule nth_equalityI)
  show "length (raw s (replicate n c)) = length (replicate n (0::real))" by simp
next
  fix t assume "t < length (raw s (replicate n c))"
  then have t: "t < n" by simp
  have v: "vol s (replicate n c) ! t \<in> {None, Some 0}"
    using set_vol_const [of s n c] t by (metis length_replicate length_vol nth_mem subsetD)
  have pc: "prev_close (replicate n c) ! t \<in> {None, Some c}"
    using t by (auto simp add: prev_close_def nth_shift)
  have "raw s (replicate n c) ! t = 0"
    using t v pc by (auto simp add: raw_nth raw_at_def nan2_def gt_nan_def lt_nan_def Let_def)
  then show "raw s (replicate n c) ! t = replicate n 0 ! t" using t by simp
qed

lemma ffill_from_Nones: "ffill_from None (replicate n None) = replicate n None"
  by (induction n) auto

lemma held_const: "held s (replicate n c) = replicate n 0"
  by (simp add: held_def raw_const replace_zero_def ffill_def ffill_from_Nones fillna_def)

lemma lagged_zeros: "fillna 0 (shift m (replicate n (Some (0::real)))) = replicate n 0"
  by (rule nth_equalityI) (auto simp add: fillna_def nth_shift)

lemma signals_const:
  "0 \<le> lookback s \<Longrightarrow> signals s (replicate n c) = Inr (replicate n 0)"
  by (simp add: signals_Inr held_const lagged_zeros)

lemma step_flat:
  assumes "dt < length sig" and "sig ! dt = 0" and "prev_sig st \<le> 0"
  shows "step sig (dt, px) st =
           (None, \<lparr>bro = bro st, prev_sig = 0,
                   equity = equity st @ [(dt, total_value (bro st) px)]\<rparr>)"
  using assms by (simp add: step_def Let_def)

lemma run_loop_flat:
  assumes "\<forall>(dt, px) \<in> set obs. dt < length sig \<and> sig ! dt = 0" and "prev_sig st \<le> 0"
  shows "fst (run_loop sig obs st) = None \<and>
         bro (snd (run_loop sig obs st)) = bro st \<and>
         equity (snd (run_loop sig obs st)) =
           equity st @ map (\<lambda>(dt, px). (dt, total_value (bro st) px)) obs"
  using assms
proof (induction obs arbitrary: st)
  case Nil
  then show ?case by simp
next
  case (Cons ob obs)
  obtain dt px where ob: "ob = (dt, px)" by (cases ob)
  let ?st' = "\<lparr>bro = bro st, prev_sig = 0,
               equity = equity st @ [(dt, total_value (bro st) px)]\<rparr>"
  from Cons.prems ob have s: "step sig (dt, px) st = (None, ?st')"
    by (intro step_flat) auto
  from Cons.prems have "\<forall>(dt, px) \<in> set obs. dt < length sig \<and> sig ! dt = 0" by auto
  from Cons.IH [OF this, of ?st'] show ?case using ob s by simp
qed

lemma run_const:
  assumes "0 \<le> lookback s"
  shows "run s (Broker c0) (replicate n c) =
           (Inr \<lparr>r_equity = map (\<lambda>dt. (dt, c0)) [0..<n], r_signals = replicate n 0,
                 r_trades = []\<rparr>, Broker c0)"
proof -
  let ?sig = "replicate n (0::real)"
  let ?st0 = "\<lparr>bro = Broker c0, prev_sig = 0, equity = []\<rparr>"
  have n: "normalized (replicate n (Some 0)) = ?sig"
    by (simp add: normalized_def fillna_def clip_def)
  have "\<forall>(dt, px) \<in> set (items (replicate n c)). dt < length ?sig \<and> ?sig ! dt = 0"
    by (auto dest!: in_set_items)
  from run_loop_flat [OF this, of ?st0]
  have l: "fst (run_loop ?sig (items (replicate n c)) ?st0) = None"
    and b: "bro (snd (run_loop ?sig (items (replicate n c)) ?st0)) = Broker c0"
    and e: "equity (snd (run_loop ?sig (items (replicate n c)) ?st0)) =
              map (\<lambda>(dt, px). (dt, total_value (Broker c0) px)) (items (replicate n c))"
    by simp_all
  have "map (\<lambda>(dt, px). (dt, total_value (Broker c0) px)) (items (replicate n c)) =
        map (\<lambda>dt. (dt, c0)) [0..<n]"
    by (rule nth_equalityI) (auto simp add: items_def total_value_def Broker_def)
  with e have e': "equity (snd (run_loop ?sig (items (replicate n c)) ?st0)) =
        map (\<lambda>dt. (dt, c0)) [0..<n]" by simp
  obtain err st where r: "run_loop ?sig (items (replicate n c)) ?st0 = (err, st)"
    by (cases "run_loop ?sig (items (replicate n c)) ?st0")
  with l b e' have "err = None" "bro st = Broker c0" "equity st = map (\<lambda>dt. (dt, c0)) [0..<n]"
    by simp_all
  moreover have "trade_log (Broker c0) = []" by (simp add: Broker_def)
  ultimately show ?thesis
    using r assms by (simp add: run_def signals_const run_with_def n)
qed

text \<open>A volatility that is defined and 0: four equal prices with a window of 2.\<close>

lemma vol_example:
  "vol \<lparr>lookback = 2, k = 3 / 2, hold = True, lag_signal = 1, long_only = True\<rparr> [5, 5, 5, 5] =
     [None, None, None, Some 0]"
  by (simp add: strategy_defs Let_def upt_conv_Cons)

text \<open>
  C6. Constant prices: on \<open>n \<ge> lookback + 1\<close> equal positive prices (lookback not
  negative) the volatility is 0 wherever it is defined, the raw signal is 0 at every step,
  and a run on a new ledger with cash \<open>c0\<close> returns an equity curve that is \<open>c0\<close> at
  every point, no trade, and leaves the ledger as it was.
\<close>

theorem constant_price:
  assumes "0 \<le> lookback s" and "lookback s + 1 \<le> int n" and "0 < c"
  shows "set (vol s (replicate n c)) \<subseteq> {None, Some 0} \<and>
         raw s (replicate n c) = replicate n 0 \<and>
         run s (Broker c0) (replicate n c) =
           (Inr \<lparr>r_equity = map (\<lambda>dt. (dt, c0)) [0..<n], r_signals = replicate n 0,
                 r_trades = []\<rparr>, Broker c0)"
  using assms set_vol_const raw_const run_const by simp

theorem constant_price_witness:
  "run \<lparr>lookback = 2, k = 3 / 2, hold = True, lag_signal = 1, long_only = True\<rparr>
       (Broker 1000) (replicate 4 5) =
     (Inr \<lparr>r_equity = [(0, 1000), (1, 1000), (2, 1000), (3, 1000)], r_signals = [0, 0, 0, 0],
           r_trades = []\<rparr>, Broker 1000)"
  using constant_price
    [where s = "\<lparr>lookback = 2, k = 3 / 2, hold = True, lag_signal = 1, long_only = True\<rparr>"
       and n = 4 and c = 5 and ?c0.0 = 1000]
  by (simp add: upt_conv_Cons numeral_eq_Suc)

end
